theory Spec2Isabelle
  imports Complex_Main "HOL-Library.Word"
begin

unbundle bit_operations_syntax

section \<open>Data model of \<^verbatim>\<open>helper/typing.py\<close>\<close>

text \<open>
  A Python \<^verbatim>\<open>str\<close> is a sequence of Unicode code points; a character is modelled by its
  code point (\<^verbatim>\<open>ord\<close>), a text by the list of its code points. Python floats are idealised
  as reals.
\<close>

datatype TypingMode = INSTANT | HUMAN_LIKE | MACHINE_GUN

datatype py_error = ValueError | IndexError | AttributeError

text \<open>
  What a typing task does to the outside world, in the order it does it: a call of
  \<^verbatim>\<open>self._send_input(char)\<close> and a call of \<^verbatim>\<open>time.sleep(seconds)\<close> that returned.
\<close>

datatype event = Send nat | Sleep real

text \<open>The configuration fields of \<^verbatim>\<open>CharacterTyper\<close> that a running task reads.\<close>

record config =
  typing_delay :: "real \<times> real"
  error_rate :: real
  mode :: TypingMode

subsection \<open>The \<^verbatim>\<open>random\<close> module\<close>

text \<open>
  The state of the global generator is the sequence of raw outcomes of the calls still to
  come; each call of the module consumes the first one. \<^verbatim>\<open>random.random()\<close> is a multiple
  of \<open>2\<^sup>-\<^sup>5\<^sup>3\<close> in \<open>[0, 1)\<close>, \<^verbatim>\<open>random.randint(a, b)\<close> is \<open>a\<close> plus a number below \<open>b - a + 1\<close>
  (and raises \<^verbatim>\<open>ValueError\<close> on an empty range), \<^verbatim>\<open>random.choice(seq)\<close> indexes \<open>seq\<close> with
  a number below its length, \<^verbatim>\<open>random.uniform(a, b)\<close> is \<open>a + (b - a) * random()\<close>.
\<close>

type_synonym rng = "nat \<Rightarrow> nat"

definition rng_tl :: "rng \<Rightarrow> rng" where
  "rng_tl g = (\<lambda>n. g (Suc n))"

definition rng_of_list :: "nat list \<Rightarrow> rng" where
  "rng_of_list ks = (\<lambda>n. if n < length ks then ks ! n else 0)"

definition random_random :: "rng \<Rightarrow> real \<times> rng" where
  "random_random g = (real (g 0 mod 2 ^ 53) / 2 ^ 53, rng_tl g)"

definition random_randint :: "int \<Rightarrow> int \<Rightarrow> rng \<Rightarrow> py_error + (int \<times> rng)" where
  "random_randint a b g =
     (if b < a then Inl ValueError
      else Inr (a + int (g 0 mod nat (b - a + 1)), rng_tl g))"

definition random_choice :: "int list \<Rightarrow> rng \<Rightarrow> py_error + (int \<times> rng)" where
  "random_choice seq g =
     (if seq = [] then Inl IndexError
      else Inr (seq ! (g 0 mod length seq), rng_tl g))"

definition random_uniform :: "real \<Rightarrow> real \<Rightarrow> rng \<Rightarrow> real \<times> rng" where
  "random_uniform a b g = (a + (b - a) * fst (random_random g), snd (random_random g))"

subsection \<open>Built-ins\<close>

text \<open>
  \<^verbatim>\<open>str.isalpha\<close> on one character. Below 128 the alphabetic characters are the ASCII
  letters; above, the Unicode database decides, which is the parameter \<open>alpha\<close>. The two
  highest code points are noncharacters in every version of Unicode, hence never
  alphabetic.
\<close>

definition isalpha :: "(nat \<Rightarrow> bool) \<Rightarrow> nat \<Rightarrow> bool" where
  "isalpha alpha c =
     (if c < 128 then (65 \<le> c \<and> c \<le> 90) \<or> (97 \<le> c \<and> c \<le> 122)
      else c \<le> 0x10FFFD \<and> alpha c)"

text \<open>\<^verbatim>\<open>chr(n)\<close> raises \<^verbatim>\<open>ValueError\<close> outside \<^verbatim>\<open>range(0x110000)\<close>.\<close>

definition py_chr :: "int \<Rightarrow> py_error + nat" where
  "py_chr n = (if 0 \<le> n \<and> n \<le> 0x10FFFF then Inr (nat n) else Inl ValueError)"

text \<open>\<^verbatim>\<open>time.sleep(t)\<close> raises \<^verbatim>\<open>ValueError\<close> on a negative length.\<close>

definition time_sleep :: "real \<Rightarrow> py_error + event list" where
  "time_sleep t = (if t < 0 then Inl ValueError else Inr [Sleep t])"

section \<open>\<^verbatim>\<open>_simulate_typo\<close>\<close>

text \<open>
  The first loop: \<^verbatim>\<open>for j in range(typo_length)\<close>, building \<^verbatim>\<open>typo_chars\<close>. The list
  argument is the part of \<^verbatim>\<open>range(typo_length)\<close> still to visit.
\<close>

fun typo_chars_loop ::
  "(nat \<Rightarrow> bool) \<Rightarrow> nat list \<Rightarrow> nat \<Rightarrow> nat list \<Rightarrow> nat list \<Rightarrow> rng
     \<Rightarrow> py_error + (nat list \<times> rng)" where
  "typo_chars_loop alpha text i [] typo_chars g = Inr (typo_chars, g)"
| "typo_chars_loop alpha text i (j # js) typo_chars g =
     (if i + j < length text \<and> isalpha alpha (text ! (i + j)) then
        (case random_choice [-2, -1, 1, 2] g of
           Inl e \<Rightarrow> Inl e
         | Inr (d, g') \<Rightarrow>
             (case py_chr (int (text ! (i + j)) + d) of
                Inl e \<Rightarrow> Inl e
              | Inr typo_char \<Rightarrow>
                  typo_chars_loop alpha text i js (typo_chars @ [typo_char]) g'))
      else if i + j < length text then
        typo_chars_loop alpha text i js (typo_chars @ [text ! (i + j)]) g
      else Inl IndexError)"

text \<open>
  The three sending loops. Each returns the events that happened, the exception that
  ended it (if any) and the generator state afterwards.
\<close>

fun send_with_delay ::
  "real \<times> real \<Rightarrow> nat list \<Rightarrow> rng \<Rightarrow> event list \<times> py_error option \<times> rng" where
  "send_with_delay d [] g = ([], None, g)"
| "send_with_delay d (c # cs) g =
     (case random_uniform (fst d) (snd d) g of (t, g1) \<Rightarrow>
      case time_sleep t of
        Inl e \<Rightarrow> ([Send c], Some e, g1)
      | Inr sl \<Rightarrow>
          (case send_with_delay d cs g1 of (es, r, g2) \<Rightarrow> (Send c # sl @ es, r, g2)))"

fun send_backspaces :: "nat list \<Rightarrow> rng \<Rightarrow> event list \<times> py_error option \<times> rng" where
  "send_backspaces [] g = ([], None, g)"
| "send_backspaces (c # cs) g =
     (case random_uniform 0.05 0.15 g of (t, g1) \<Rightarrow>
      case time_sleep t of
        Inl e \<Rightarrow> ([Send 8], Some e, g1)
      | Inr sl \<Rightarrow>
          (case send_backspaces cs g1 of (es, r, g2) \<Rightarrow> (Send 8 # sl @ es, r, g2)))"

text \<open>
  The last loop, \<^verbatim>\<open>for j in range(typo_length): if i + j < len(text): ...\<close>, sends the
  characters of the text at the positions \<open>i + j\<close> that exist.
\<close>

definition originals :: "nat list \<Rightarrow> nat \<Rightarrow> nat \<Rightarrow> nat list" where
  "originals text i typo_length =
     map (\<lambda>j. text ! (i + j)) (filter (\<lambda>j. i + j < length text) [0..<typo_length])"

text \<open>
  The result is the events, then \<open>Inr typo_length\<close> (the value returned) or \<open>Inl\<close> the
  exception raised, then the generator state.
\<close>

definition simulate_typo ::
  "(nat \<Rightarrow> bool) \<Rightarrow> 'a config_scheme \<Rightarrow> nat list \<Rightarrow> nat \<Rightarrow> rng
     \<Rightarrow> event list \<times> (py_error + nat) \<times> rng" where
  "simulate_typo alpha self text i g =
     (case random_randint 1 (min 3 (int (length text) - int i)) g of
        Inl e \<Rightarrow> ([], Inl e, g)
      | Inr (drawn, g0) \<Rightarrow>
     (let typo_length = nat drawn in
      case typo_chars_loop alpha text i [0..<typo_length] [] g0 of
        Inl e \<Rightarrow> ([], Inl e, g0)
      | Inr (typo_chars, g1) \<Rightarrow>
     (case send_with_delay (typing_delay self) typo_chars g1 of
        (es1, Some e, g2) \<Rightarrow> (es1, Inl e, g2)
      | (es1, None, g2) \<Rightarrow>
     (case random_uniform 0.1 0.3 g2 of (t, g3) \<Rightarrow>
      case time_sleep t of
        Inl e \<Rightarrow> (es1, Inl e, g3)
      | Inr pause \<Rightarrow>
     (case send_backspaces typo_chars g3 of
        (es2, Some e, g4) \<Rightarrow> (es1 @ pause @ es2, Inl e, g4)
      | (es2, None, g4) \<Rightarrow>
     (case send_with_delay (typing_delay self) (originals text i typo_length) g4 of
        (es3, Some e, g5) \<Rightarrow> (es1 @ pause @ es2 @ es3, Inl e, g5)
      | (es3, None, g5) \<Rightarrow> (es1 @ pause @ es2 @ es3, Inr typo_length, g5)))))))"

section \<open>\<^verbatim>\<open>_simulate_typing\<close>\<close>

definition ord :: "char \<Rightarrow> nat" where
  "ord c = of_char c"

text \<open>The delay of \<^verbatim>\<open>HUMAN_LIKE\<close> mode, from the base draw (lines 188 to 193).\<close>

definition human_like_delay :: "nat \<Rightarrow> nat option \<Rightarrow> real \<Rightarrow> real" where
  "human_like_delay char last_char delay =
     (let delay1 =
        (if char \<in> set (map ord '',;:'') then delay * 1.5
         else if char \<in> set (map ord ''.!?'') then delay * 2.0
         else delay)
      in if Some char = last_char then delay1 * 0.8 else delay1)"

text \<open>
  The direct injection of one character and the sleep of the active mode (lines 182 to
  196): the three \<^verbatim>\<open>if self._mode == ...\<close> in their order.
\<close>

definition dispatch ::
  "'a config_scheme \<Rightarrow> nat \<Rightarrow> nat option \<Rightarrow> rng \<Rightarrow> event list \<times> py_error option \<times> rng" where
  "dispatch self char last_char g =
     (case (if mode self = HUMAN_LIKE then
              (case random_uniform (fst (typing_delay self)) (snd (typing_delay self)) g of
                 (delay, g1) \<Rightarrow>
                   (case time_sleep (human_like_delay char last_char delay) of
                      Inl e \<Rightarrow> ([Send char], Some e, g1)
                    | Inr sl \<Rightarrow> (Send char # sl, None, g1)))
            else ([Send char], None, g)) of
        (es, Some e, g1) \<Rightarrow> (es, Some e, g1)
      | (es, None, g1) \<Rightarrow>
          (if mode self = MACHINE_GUN then
             (case time_sleep (fst (typing_delay self)) of
                Inl e \<Rightarrow> (es, Some e, g1)
              | Inr sl \<Rightarrow> (es @ sl, None, g1))
           else (es, None, g1)))"

text \<open>
  One pass through the body of the \<^verbatim>\<open>while\<close> loop. \<open>is_set\<close> is what
  \<^verbatim>\<open>self._stop_event.is_set()\<close> answers in this pass. The pass ends by going round the loop
  again with new values of \<open>i\<close> and \<open>last_char\<close>, by \<^verbatim>\<open>return\<close>, or by an exception. The
  record says where the cursor was, which of the two branches was taken and what the pass
  did; it is \<open>None\<close> when the pass returned at the check of the flag.
\<close>

datatype control = Continue nat "nat option" | Return | Raise py_error

datatype branch = Direct | Typo

record iteration =
  it_cursor :: nat
  it_branch :: branch
  it_events :: "event list"

definition typing_iteration ::
  "(nat \<Rightarrow> bool) \<Rightarrow> 'a config_scheme \<Rightarrow> bool \<Rightarrow> nat list \<Rightarrow> nat \<Rightarrow> nat option \<Rightarrow> rng
     \<Rightarrow> iteration option \<times> control \<times> rng" where
  "typing_iteration alpha self is_set text i last_char g =
     (let char = text ! i in
      if is_set then (None, Return, g)
      else
        (case random_random g of (r, g1) \<Rightarrow>
           if r < error_rate self \<and> isalpha alpha char then
             (case simulate_typo alpha self text i g1 of
                (es, Inl e, g2) \<Rightarrow>
                  (Some \<lparr>it_cursor = i, it_branch = Typo, it_events = es\<rparr>, Raise e, g2)
              | (es, Inr typo_length, g2) \<Rightarrow>
                  (Some \<lparr>it_cursor = i, it_branch = Typo, it_events = es\<rparr>,
                   Continue (i + typo_length) last_char, g2))
           else
             (case dispatch self char last_char g1 of
                (es, Some e, g2) \<Rightarrow>
                  (Some \<lparr>it_cursor = i, it_branch = Direct, it_events = es\<rparr>, Raise e, g2)
              | (es, None, g2) \<Rightarrow>
                  (Some \<lparr>it_cursor = i, it_branch = Direct, it_events = es\<rparr>,
                   Continue (i + 1) (Some char), g2))))"

text \<open>A pass that goes round the loop again has moved the cursor forward.\<close>

lemma typing_iteration_advances:
  "typing_iteration alpha self b text i last_char g = (it, Continue i' l', g') \<Longrightarrow> i < i'"
  by (auto simp: typing_iteration_def simulate_typo_def random_randint_def Let_def
      split: if_splits prod.splits sum.splits option.splits)

text \<open>
  How a task ended: the loop ran to the end of the text, the flag was seen, or an exception
  killed the thread.
\<close>

datatype outcome = Finished | Cancelled | Raised py_error

text \<open>
  The \<^verbatim>\<open>while\<close> loop. The flag belongs to the caller's thread, which sets it while the
  task runs: \<open>stop n\<close> is what \<^verbatim>\<open>is_set()\<close> answers at the check that the task makes once
  it has produced \<open>n\<close> events (no two checks of a task are made at the same \<open>n\<close>). The
  configuration is read from \<open>self\<close> as it is during the task.
\<close>

function simulate_typing_loop ::
  "(nat \<Rightarrow> bool) \<Rightarrow> 'a config_scheme \<Rightarrow> (nat \<Rightarrow> bool) \<Rightarrow> nat list \<Rightarrow> nat \<Rightarrow> nat option
     \<Rightarrow> rng \<Rightarrow> nat \<Rightarrow> iteration list \<times> outcome \<times> rng" where
  "simulate_typing_loop alpha self stop text i last_char g n =
     (if i < length text then
        (case typing_iteration alpha self (stop n) text i last_char g of
           (None, ctl, g') \<Rightarrow> ([], Cancelled, g')
         | (Some it, Return, g') \<Rightarrow> ([it], Cancelled, g')
         | (Some it, Raise e, g') \<Rightarrow> ([it], Raised e, g')
         | (Some it, Continue i' last_char', g') \<Rightarrow>
             (case simulate_typing_loop alpha self stop text i' last_char' g'
                     (n + length (it_events it)) of
                (its, out, g'') \<Rightarrow> (it # its, out, g'')))
      else ([], Finished, g))"
  by pat_completeness auto
termination
  apply (relation "measure (\<lambda>(alpha, self, stop, text, i, last_char, g, n). length text - i)")
   apply simp
  apply (auto dest: typing_iteration_advances [OF sym])
  done

definition simulate_typing ::
  "(nat \<Rightarrow> bool) \<Rightarrow> 'a config_scheme \<Rightarrow> (nat \<Rightarrow> bool) \<Rightarrow> nat list \<Rightarrow> rng
     \<Rightarrow> iteration list \<times> outcome \<times> rng" where
  "simulate_typing alpha self stop text g = simulate_typing_loop alpha self stop text 0 None g 0"

definition trace :: "iteration list \<Rightarrow> event list" where
  "trace its = concat (map it_events its)"

section \<open>The input backends\<close>

text \<open>
  The fields of the \<^verbatim>\<open>ctypes\<close> structures with their widths: \<^verbatim>\<open>WORD\<close> is 16 bits,
  \<^verbatim>\<open>DWORD\<close> 32 bits. An integer stored into a \<^verbatim>\<open>ctypes\<close> field is truncated to the width
  of the field. \<^verbatim>\<open>dwExtraInfo = None\<close> is the null pointer.
\<close>

record KEYBDINPUT =
  wVk :: "16 word"
  wScan :: "16 word"
  dwFlags :: "32 word"
  time :: "32 word"
  dwExtraInfo :: "nat option"

record INPUT =
  input_type :: "32 word"
  ki :: KEYBDINPUT

text \<open>The X11 key events, with the fields that are not constant in the source.\<close>

record x_key_event =
  detail :: nat
  window :: nat

datatype os_event =
    SendInput INPUT
  | KeyPress x_key_event
  | KeyRelease x_key_event
  | Sync
  | OsSleep real

definition input_keyboard_const :: "32 word" where
  "input_keyboard_const = 1"

definition keyeventf_unicode_flag :: "32 word" where
  "keyeventf_unicode_flag = 0x4"

definition keyeventf_keyup_flag :: "32 word" where
  "keyeventf_keyup_flag = 0x2"

definition windows_send_input :: "nat \<Rightarrow> os_event list" where
  "windows_send_input char =
     (let k = (if char = ord CHR 0x0A then
                 \<lparr>wVk = 0x0D, wScan = 0, dwFlags = 0, time = 0, dwExtraInfo = None\<rparr>
               else
                 \<lparr>wVk = 0, wScan = of_nat char, dwFlags = keyeventf_unicode_flag,
                  time = 0, dwExtraInfo = None\<rparr>);
          i = \<lparr>input_type = input_keyboard_const, ki = k\<rparr>
      in [SendInput i, OsSleep 0.01,
          SendInput (i\<lparr>ki := k\<lparr>dwFlags := dwFlags k OR keyeventf_keyup_flag\<rparr>\<rparr>)])"

text \<open>
  What the X11 backend uses of its \<^verbatim>\<open>Xlib.display.Display\<close>. \<^verbatim>\<open>keysym_to_keycode\<close>,
  \<^verbatim>\<open>get_input_focus\<close> and \<^verbatim>\<open>sync\<close> are methods of that class. The backend also looks up
  \<^verbatim>\<open>keysym\<close>, \<^verbatim>\<open>_key_press_event\<close> and \<^verbatim>\<open>_key_release_event\<close> on the display; the lookup
  of an attribute that the display does not have raises \<^verbatim>\<open>AttributeError\<close>. So the record
  says for each of these three whether the display has it, and for \<^verbatim>\<open>keysym\<close> what it
  answers.
\<close>

record display =
  keysym_to_keycode :: "nat \<Rightarrow> nat"
  input_focus :: nat
  keysym_method :: "(nat \<Rightarrow> nat) option"
  key_press_event_method :: bool
  key_release_event_method :: bool

text \<open>
  The display of python-xlib: its class has none of the three attributes (its
  \<^verbatim>\<open>__getattr__\<close> serves extension methods only).
\<close>

definition xlib_display :: "(nat \<Rightarrow> nat) \<Rightarrow> nat \<Rightarrow> display" where
  "xlib_display to_keycode focus =
     \<lparr>keysym_to_keycode = to_keycode, input_focus = focus, keysym_method = None,
      key_press_event_method = False, key_release_event_method = False\<rparr>"

text \<open>Lines 91 to 96: the keysym of the character, or the exception of the lookup.\<close>

definition x11_keysym :: "display \<Rightarrow> nat \<Rightarrow> py_error + nat" where
  "x11_keysym d char =
     (if char = ord CHR 0x0A then Inr 0xFF0D
      else
        (case keysym_method d of
           None \<Rightarrow> Inl AttributeError
         | Some keysym \<Rightarrow> Inr (if keysym char = 0 then char else keysym char)))"

text \<open>
  Lines 98 to 138. The result is what reached the X server and the exception that ended
  the call, if any. The argument of \<^verbatim>\<open>send_event\<close> is built before the event is sent, so
  a missing \<^verbatim>\<open>_key_press_event\<close> ends the call after the first \<^verbatim>\<open>sync\<close>.
\<close>

definition x11_send_input :: "display \<Rightarrow> nat \<Rightarrow> os_event list \<times> py_error option" where
  "x11_send_input d char =
     (case x11_keysym d char of
        Inl e \<Rightarrow> ([], Some e)
      | Inr keysym \<Rightarrow>
          (let ev = \<lparr>detail = keysym_to_keycode d keysym, window = input_focus d\<rparr>
           in if \<not> key_press_event_method d then ([Sync], Some AttributeError)
              else if \<not> key_release_event_method d then
                ([Sync, KeyPress ev, OsSleep 0.01], Some AttributeError)
              else ([Sync, KeyPress ev, OsSleep 0.01, KeyRelease ev, Sync], None)))"

section \<open>The engine: \<^verbatim>\<open>CharacterTyper\<close> and its thread\<close>

text \<open>
  A thread running \<^verbatim>\<open>_simulate_typing(text)\<close>. It stands either at the top of a pass of
  the loop (\<open>th_pending\<close> is empty and \<open>th_ctl\<close> holds \<open>i\<close> and \<open>last_char\<close>) or inside a
  pass, with the events of the pass that have not happened yet and the way the pass ends.
  A thread whose target has returned or raised is not alive.
\<close>

record thread =
  th_text :: "nat list"
  th_pending :: "event list"
  th_ctl :: control
  th_alive :: bool

datatype platform = Windows | X11

text \<open>
  The object, and with it what the interpreter holds for it: the threads started so far
  (\<^verbatim>\<open>_typing_thread\<close> is an index into them), the state of the \<^verbatim>\<open>random\<close> module, and
  the log of what was sent and slept, each entry with the thread it came from (\<open>None\<close> is
  the caller's thread).
\<close>

record CharacterTyper = config +
  stop_event :: bool
  typing_thread :: "nat option"
  send_input :: platform
  threads :: "thread list"
  random_state :: rng
  injected :: "(nat option \<times> event) list"

datatype init_error = RuntimeError | DisplayConnectionError

definition new_typer :: "platform \<Rightarrow> rng \<Rightarrow> CharacterTyper" where
  "new_typer p g =
     \<lparr>typing_delay = (0.05, 0.2), error_rate = 0.005, mode = HUMAN_LIKE,
      stop_event = False, typing_thread = None, send_input = p,
      threads = [], random_state = g, injected = []\<rparr>"

text \<open>
  \<^verbatim>\<open>__init__\<close>. On a host that is not Windows and has Xlib, \<^verbatim>\<open>Xlib.display.Display()\<close>
  is called, which raises when no display can be reached.
\<close>

definition init :: "bool \<Rightarrow> bool \<Rightarrow> bool \<Rightarrow> rng \<Rightarrow> init_error + CharacterTyper" where
  "init is_windows has_xlib display_connects g =
     (if is_windows then Inr (new_typer Windows g)
      else if has_xlib then
        (if display_connects then Inr (new_typer X11 g) else Inl DisplayConnectionError)
      else Inl RuntimeError)"

text \<open>
  One step of the thread \<open>t\<close>: inside a pass, its next event happens; at the top of a
  pass, it runs the body of the loop on the fields of the object as they are now, or
  leaves the loop at the end of the text. The flag is read where the source reads it, at
  the top of the pass. The configuration is read there too, once for the pass; the source
  reads \<^verbatim>\<open>_mode\<close> after the injection and \<^verbatim>\<open>_typing_delay\<close> before each sleep, so a
  setter that runs in the middle of a pass changes the sleeps left in that pass in the
  source and only the next pass here. The injections of a pass, their order and the
  thread they come from are fixed at the top of the pass in both.
\<close>

definition thread_step :: "(nat \<Rightarrow> bool) \<Rightarrow> CharacterTyper \<Rightarrow> nat \<Rightarrow> CharacterTyper" where
  "thread_step alpha s t =
     (if t < length (threads s) \<and> th_alive (threads s ! t) then
        (let th = threads s ! t in
         case th_pending th of
           e # es \<Rightarrow>
             s\<lparr>threads := (threads s)[t := th\<lparr>th_pending := es\<rparr>],
               injected := injected s @ [(Some t, e)]\<rparr>
         | [] \<Rightarrow>
             (case th_ctl th of
                Continue i last_char \<Rightarrow>
                  (if i < length (th_text th) then
                     (case typing_iteration alpha s (stop_event s) (th_text th) i last_char
                             (random_state s) of
                        (it, ctl, g') \<Rightarrow>
                          s\<lparr>threads := (threads s)
                               [t := th\<lparr>th_pending :=
                                         (case it of None \<Rightarrow> [] | Some r \<Rightarrow> it_events r),
                                       th_ctl := ctl\<rparr>],
                            random_state := g'\<rparr>)
                   else s\<lparr>threads := (threads s)[t := th\<lparr>th_alive := False\<rparr>]\<rparr>)
              | Return \<Rightarrow> s\<lparr>threads := (threads s)[t := th\<lparr>th_alive := False\<rparr>]\<rparr>
              | Raise e \<Rightarrow> s\<lparr>threads := (threads s)[t := th\<lparr>th_alive := False\<rparr>]\<rparr>))
      else s)"

definition is_alive :: "CharacterTyper \<Rightarrow> nat \<Rightarrow> bool" where
  "is_alive s t = (t < length (threads s) \<and> th_alive (threads s ! t))"

text \<open>
  What is left for an alive thread to do: passes first, then the events of the pass it is
  in.
\<close>

definition work_left :: "thread \<Rightarrow> nat \<times> nat" where
  "work_left th =
     (case th_ctl th of
        Continue i last_char \<Rightarrow> Suc (length (th_text th) - i)
      | Return \<Rightarrow> 0
      | Raise e \<Rightarrow> 0,
      length (th_pending th))"

text \<open>
  \<^verbatim>\<open>Thread.join()\<close>: the caller waits while the thread runs until it is no longer
  alive.
\<close>

function join :: "(nat \<Rightarrow> bool) \<Rightarrow> CharacterTyper \<Rightarrow> nat \<Rightarrow> CharacterTyper" where
  "join alpha s t = (if is_alive s t then join alpha (thread_step alpha s t) t else s)"
  by pat_completeness auto
termination
  apply (relation "inv_image (less_than <*lex*> less_than <*lex*> less_than)
      (\<lambda>(alpha, s, t). (if is_alive s t then 1 else (0::nat), work_left (threads s ! t)))")
   apply (simp add: wf_inv_image wf_lex_prod)
  apply (auto simp: is_alive_def thread_step_def work_left_def Let_def
      split: list.splits control.splits prod.splits dest: typing_iteration_advances)
  done

definition type_text :: "(nat \<Rightarrow> bool) \<Rightarrow> CharacterTyper \<Rightarrow> nat list \<Rightarrow> CharacterTyper" where
  "type_text alpha s text =
     (let s1 = (case typing_thread s of
                  None \<Rightarrow> s
                | Some t \<Rightarrow> if is_alive s t then join alpha s t else s);
          s2 = s1\<lparr>stop_event := False\<rparr>
      in s2\<lparr>typing_thread := Some (length (threads s2)),
            threads := threads s2 @
              [\<lparr>th_text = text, th_pending = [], th_ctl = Continue 0 None, th_alive = True\<rparr>]\<rparr>)"

definition stop_typing :: "(nat \<Rightarrow> bool) \<Rightarrow> CharacterTyper \<Rightarrow> CharacterTyper" where
  "stop_typing alpha s =
     (let s1 = s\<lparr>stop_event := True\<rparr>
      in case typing_thread s1 of None \<Rightarrow> s1 | Some t \<Rightarrow> join alpha s1 t)"

definition set_typing_speed :: "CharacterTyper \<Rightarrow> real \<Rightarrow> real \<Rightarrow> CharacterTyper" where
  "set_typing_speed s min_delay max_delay = s\<lparr>typing_delay := (min_delay, max_delay)\<rparr>"

definition set_error_rate :: "CharacterTyper \<Rightarrow> real \<Rightarrow> CharacterTyper" where
  "set_error_rate s rate = s\<lparr>error_rate := max 0 (min 1 rate)\<rparr>"

definition set_typing_mode :: "CharacterTyper \<Rightarrow> TypingMode \<Rightarrow> CharacterTyper" where
  "set_typing_mode s m = s\<lparr>mode := m\<rparr>"

definition wait_until_done :: "(nat \<Rightarrow> bool) \<Rightarrow> CharacterTyper \<Rightarrow> CharacterTyper" where
  "wait_until_done alpha s =
     (case typing_thread s of None \<Rightarrow> s | Some t \<Rightarrow> join alpha s t)"

definition press_enter :: "CharacterTyper \<Rightarrow> CharacterTyper" where
  "press_enter s = s\<lparr>injected := injected s @ [(None, Send (ord CHR 0x0A))]\<rparr>"

text \<open>
  What the backend chosen at construction does for one call of \<^verbatim>\<open>self._send_input\<close>,
  and the exception that ends the call, if any.
\<close>

definition backend_events ::
  "display \<Rightarrow> platform \<Rightarrow> nat \<Rightarrow> os_event list \<times> py_error option" where
  "backend_events d p char =
     (case p of
        Windows \<Rightarrow> (windows_send_input char, None)
      | X11 \<Rightarrow> x11_send_input d char)"

subsection \<open>Runs of the engine\<close>

text \<open>
  A run interleaves the calls of the one caller with steps of the threads: \<open>Run t\<close> lets
  thread \<open>t\<close> take its next step, if it is alive.
\<close>

datatype call =
    TypeText "nat list"
  | StopTyping
  | WaitUntilDone
  | SetTypingSpeed real real
  | SetErrorRate real
  | SetTypingMode TypingMode
  | PressEnter

datatype action = Call call | Run nat

fun perform :: "(nat \<Rightarrow> bool) \<Rightarrow> CharacterTyper \<Rightarrow> action \<Rightarrow> CharacterTyper" where
  "perform alpha s (Run t) = thread_step alpha s t"
| "perform alpha s (Call (TypeText text)) = type_text alpha s text"
| "perform alpha s (Call StopTyping) = stop_typing alpha s"
| "perform alpha s (Call WaitUntilDone) = wait_until_done alpha s"
| "perform alpha s (Call (SetTypingSpeed a b)) = set_typing_speed s a b"
| "perform alpha s (Call (SetErrorRate r)) = set_error_rate s r"
| "perform alpha s (Call (SetTypingMode m)) = set_typing_mode s m"
| "perform alpha s (Call PressEnter) = press_enter s"

definition execute :: "(nat \<Rightarrow> bool) \<Rightarrow> CharacterTyper \<Rightarrow> action list \<Rightarrow> CharacterTyper" where
  "execute alpha s acts = foldl (perform alpha) s acts"

section \<open>Notions the properties are stated with\<close>

text \<open>The characters injected by a list of events, in order.\<close>

fun sends :: "event list \<Rightarrow> nat list" where
  "sends [] = []"
| "sends (Send c # es) = c # sends es"
| "sends (Sleep t # es) = sends es"


text \<open>The threads that are alive.\<close>

definition active :: "CharacterTyper \<Rightarrow> nat list" where
  "active s = filter (is_alive s) [0..<length (threads s)]"




text \<open>A value that \<^verbatim>\<open>random.uniform(a, b)\<close> can return.\<close>

definition uniform_draw :: "real \<Rightarrow> real \<Rightarrow> real \<Rightarrow> bool" where
  "uniform_draw a b t = (\<exists>u. 0 \<le> u \<and> u < 1 \<and> t = a + (b - a) * u)"


text \<open>Only the thread that \<^verbatim>\<open>_typing_thread\<close> names can be alive.\<close>

definition only_current :: "CharacterTyper \<Rightarrow> bool" where
  "only_current s = (\<forall>t. is_alive s t \<longrightarrow> typing_thread s = Some t)"

text \<open>Every entry of the log comes from the caller or from a thread that was started.\<close>

definition log_known :: "CharacterTyper \<Rightarrow> bool" where
  "log_known s = (\<forall>x\<in>set (injected s). \<forall>t. fst x = Some t \<longrightarrow> t < length (threads s))"


text \<open>The state in which \<^verbatim>\<open>type_text\<close> starts the new thread: the old one has been joined.\<close>

definition joined :: "(nat \<Rightarrow> bool) \<Rightarrow> CharacterTyper \<Rightarrow> CharacterTyper" where
  "joined alpha s =
     (case typing_thread s of
        None \<Rightarrow> s
      | Some t \<Rightarrow> if is_alive s t then join alpha s t else s)"

text \<open>No thread has more than nine injections left in the pass it is in.\<close>

definition pending_bounded :: "CharacterTyper \<Rightarrow> bool" where
  "pending_bounded s = (\<forall>th\<in>set (threads s). length (sends (th_pending th)) \<le> 9)"

text \<open>What is left of the pass the thread is in, as entries of the log.\<close>

definition rest_of_pass :: "CharacterTyper \<Rightarrow> nat \<Rightarrow> (nat option \<times> event) list" where
  "rest_of_pass s t =
     (if is_alive s t then map (Pair (Some t)) (th_pending (threads s ! t)) else [])"

section \<open>Lemmas about the random module and the typo detour\<close>

lemma random_random_range: "0 \<le> fst (random_random g) \<and> fst (random_random g) < 1"
proof -
  have "real (g 0 mod 2 ^ 53) < 2 ^ 53"
    by (metis mod_less_divisor of_nat_less_iff of_nat_numeral of_nat_power zero_less_numeral zero_less_power)
  then show ?thesis by (simp add: random_random_def)
qed

lemma random_uniform_draw: "uniform_draw a b (fst (random_uniform a b g))"
  unfolding uniform_draw_def random_uniform_def using random_random_range [of g] by auto

lemma uniform_draw_nonneg:
  assumes "uniform_draw a b t" "0 \<le> a" "0 \<le> b"
  shows "0 \<le> t"
proof -
  from assms obtain u where u: "0 \<le> u" "u < 1" "t = a + (b - a) * u"
    by (auto simp: uniform_draw_def)
  have "t = a * (1 - u) + b * u" using u by (simp add: algebra_simps)
  moreover have "0 \<le> a * (1 - u)" using assms u by simp
  moreover have "0 \<le> b * u" using assms u by simp
  ultimately show ?thesis by linarith
qed







lemma rng_tl_of_list_Cons: "rng_tl (rng_of_list (k # ks)) = rng_of_list ks"
  by (auto simp: rng_tl_def rng_of_list_def)

lemma rng_tl_of_list_Nil: "rng_tl (rng_of_list []) = rng_of_list []"
  by (auto simp: rng_tl_def rng_of_list_def)

lemma rng_of_list_0: "rng_of_list (k # ks) 0 = k" "rng_of_list [] 0 = 0"
  by (auto simp: rng_of_list_def)





lemma sends_append: "sends (es @ fs) = sends es @ sends fs"
  by (induction es rule: sends.induct) auto








text \<open>The equations that evaluate the model on a concrete input.\<close>

lemmas eval_defs = simulate_typing_def typing_iteration_def simulate_typo_def dispatch_def
  human_like_delay_def ord_def random_random_def
  random_randint_def random_choice_def random_uniform_def py_chr_def time_sleep_def
  isalpha_def originals_def trace_def rng_tl_of_list_Cons rng_tl_of_list_Nil rng_of_list_0
  upt_rec [of _ "numeral _"] Let_def

section \<open>Lemmas about the loop\<close>

lemma typing_iteration_branch:
  "typing_iteration alpha self False src i last_char g = (Some it, ctl, g') \<Longrightarrow>
   it_cursor it = i \<and>
   (it_branch it = Typo) = (fst (random_random g) < error_rate self \<and> isalpha alpha (src ! i))"
  by (auto simp: typing_iteration_def Let_def case_prod_beta split: if_splits sum.splits option.splits)

lemma typing_iteration_stopped:
  "typing_iteration alpha self True src i last_char g = (None, Return, g)"
  by (simp add: typing_iteration_def)

lemma typing_iteration_running:
  "typing_iteration alpha self False src i last_char g = (r, ctl, g') \<Longrightarrow> \<exists>it. r = Some it \<and> ctl \<noteq> Return"
  by (auto simp: typing_iteration_def Let_def case_prod_beta split: if_splits sum.splits option.splits)



lemma human_like_delay_nonneg: "0 \<le> t \<Longrightarrow> 0 \<le> human_like_delay c last_char t"
  by (simp add: human_like_delay_def Let_def)

lemma dispatch_instant: "mode self = INSTANT \<Longrightarrow> dispatch self c last_char g = ([Send c], None, g)"
  by (simp add: dispatch_def)

lemma dispatch_machine_gun:
  "mode self = MACHINE_GUN \<Longrightarrow> 0 \<le> fst (typing_delay self) \<Longrightarrow>
   dispatch self c last_char g = ([Send c, Sleep (fst (typing_delay self))], None, g)"
  by (simp add: dispatch_def time_sleep_def)

lemma dispatch_human_like:
  assumes "mode self = HUMAN_LIKE" "0 \<le> fst (typing_delay self)" "0 \<le> snd (typing_delay self)"
  shows "dispatch self c last_char g =
     ([Send c, Sleep (human_like_delay c last_char
          (fst (random_uniform (fst (typing_delay self)) (snd (typing_delay self)) g)))],
      None, snd (random_uniform (fst (typing_delay self)) (snd (typing_delay self)) g))"
proof -
  let ?u = "random_uniform (fst (typing_delay self)) (snd (typing_delay self)) g"
  have "0 \<le> fst ?u"
    using uniform_draw_nonneg [OF random_uniform_draw assms(2,3)] .
  then have "0 \<le> human_like_delay c last_char (fst ?u)" by (rule human_like_delay_nonneg)
  then show ?thesis using assms(1) by (simp add: dispatch_def time_sleep_def case_prod_beta)
qed

lemma instant_direct_pass:
  assumes "mode self = INSTANT"
    and "\<not> (fst (random_random g) < error_rate self \<and> isalpha alpha (src ! i))"
  shows "typing_iteration alpha self False src i last_char g =
     (Some \<lparr>it_cursor = i, it_branch = Direct, it_events = [Send (src ! i)]\<rparr>,
      Continue (i + 1) (Some (src ! i)), snd (random_random g))"
  using assms by (auto simp: typing_iteration_def case_prod_beta Let_def dispatch_instant)

lemma instant_loop_direct:
  assumes "mode self = INSTANT" and "\<And>n. \<not> stop n"
    and "\<forall>it\<in>set (fst (simulate_typing_loop alpha self stop src i last_char g n)).
           it_branch it = Direct"
  shows "trace (fst (simulate_typing_loop alpha self stop src i last_char g n))
           = map Send (drop i src)
     \<and> fst (snd (simulate_typing_loop alpha self stop src i last_char g n)) = Finished
     \<and> simulate_typing_loop alpha (self\<lparr>typing_delay := d\<rparr>) stop src i last_char g n
           = simulate_typing_loop alpha self stop src i last_char g n"
  using assms
proof (induction alpha self stop src i last_char g n rule: simulate_typing_loop.induct)
  case (1 alpha self stop src i last_char g n)
  let ?self' = "self\<lparr>typing_delay := d\<rparr>"
  show ?case
  proof (cases "i < length src")
    case False
    then show ?thesis by (simp add: trace_def)
  next
    case lt: True
    have st: "stop n = False" using "1.prems"(2) by simp
    obtain r ctl g' where ti: "typing_iteration alpha self False src i last_char g = (r, ctl, g')"
      by (cases "typing_iteration alpha self False src i last_char g")
    then obtain it where r: "r = Some it" and nr: "ctl \<noteq> Return"
      using typing_iteration_running by blast
    have hd: "it \<in> set (fst (simulate_typing_loop alpha self stop src i last_char g n))"
      using lt st ti r nr by (cases ctl) (simp_all add: case_prod_beta)
    then have "it_branch it = Direct" using "1.prems"(3) by blast
    then have nd: "\<not> (fst (random_random g) < error_rate self \<and> isalpha alpha (src ! i))"
      using typing_iteration_branch [OF ti [unfolded r]] by auto
    let ?it = "\<lparr>it_cursor = i, it_branch = Direct, it_events = [Send (src ! i)]\<rparr>"
    have p: "typing_iteration alpha self False src i last_char g =
        (Some ?it, Continue (i + 1) (Some (src ! i)), snd (random_random g))"
      using instant_direct_pass [OF "1.prems"(1) nd] .
    have p': "typing_iteration alpha ?self' False src i last_char g =
        (Some ?it, Continue (i + 1) (Some (src ! i)), snd (random_random g))"
      using instant_direct_pass [of ?self' g alpha src i last_char] "1.prems"(1) nd by simp
    let ?rest = "simulate_typing_loop alpha self stop src (i + 1) (Some (src ! i))
                   (snd (random_random g)) (n + length (it_events ?it))"
    have unf: "simulate_typing_loop alpha self stop src i last_char g n
               = (?it # fst ?rest, fst (snd ?rest), snd (snd ?rest))"
      using lt st p by (simp add: case_prod_beta)
    have unf': "simulate_typing_loop alpha ?self' stop src i last_char g n
               = (case simulate_typing_loop alpha ?self' stop src (i + 1) (Some (src ! i))
                   (snd (random_random g)) (n + length (it_events ?it)) of
                    (its, out, g'') \<Rightarrow> (?it # its, out, g''))"
      using lt st p' by simp
    have rd: "\<forall>it\<in>set (fst ?rest). it_branch it = Direct"
      using "1.prems"(3) unf by simp
    have p0: "(Some ?it, Continue (i + 1) (Some (src ! i)), snd (random_random g))
               = typing_iteration alpha self (stop n) src i last_char g"
      using p st by simp
    have ih: "trace (fst ?rest) = map Send (drop (i + 1) src)
       \<and> fst (snd ?rest) = Finished
       \<and> simulate_typing_loop alpha ?self' stop src (i + 1) (Some (src ! i))
                   (snd (random_random g)) (n + length (it_events ?it)) = ?rest"
      using "1.IH" [OF lt p0 refl refl refl "1.prems"(1,2) rd] .
    have "drop i src = src ! i # drop (i + 1) src" using lt by (simp add: Cons_nth_drop_Suc)
    then show ?thesis using unf unf' ih by (simp add: trace_def case_prod_beta)
  qed
qed

lemma human_like_pass:
  assumes "mode self = HUMAN_LIKE"
    and "0 \<le> fst (typing_delay self)" and "0 \<le> snd (typing_delay self)"
    and "\<not> (fst (random_random g) < error_rate self \<and> isalpha alpha (src ! i))"
  shows "\<exists>base g'. uniform_draw (fst (typing_delay self)) (snd (typing_delay self)) base
     \<and> typing_iteration alpha self False src i last_char g =
        (Some \<lparr>it_cursor = i, it_branch = Direct, it_events =
           [Send (src ! i),
            Sleep (base
                   * (if src ! i \<in> {44, 59, 58} then 1.5
                      else if src ! i \<in> {46, 33, 63} then 2.0 else 1)
                   * (if Some (src ! i) = last_char then 0.8 else 1))]\<rparr>,
         Continue (i + 1) (Some (src ! i)), g')"
proof -
  let ?g1 = "snd (random_random g)"
  let ?u = "random_uniform (fst (typing_delay self)) (snd (typing_delay self)) ?g1"
  have d: "dispatch self (src ! i) last_char ?g1 =
     ([Send (src ! i), Sleep (human_like_delay (src ! i) last_char (fst ?u))], None, snd ?u)"
    using dispatch_human_like [OF assms(1-3)] .
  have h: "human_like_delay (src ! i) last_char (fst ?u) =
      fst ?u * (if src ! i \<in> {44, 59, 58} then 1.5
                else if src ! i \<in> {46, 33, 63} then 2.0 else 1)
             * (if Some (src ! i) = last_char then 0.8 else 1)"
    by (simp add: human_like_delay_def ord_def Let_def)
  have "typing_iteration alpha self False src i last_char g =
        (Some \<lparr>it_cursor = i, it_branch = Direct, it_events =
           [Send (src ! i), Sleep (human_like_delay (src ! i) last_char (fst ?u))]\<rparr>,
         Continue (i + 1) (Some (src ! i)), snd ?u)"
    using assms(4) d by (auto simp: typing_iteration_def case_prod_beta Let_def)
  then show ?thesis using h random_uniform_draw [of _ _ ?g1] by metis
qed

lemma hi_example:
  "simulate_typing (\<lambda>c. False)
      \<lparr>typing_delay = (0.05, 0.2), error_rate = 0, mode = HUMAN_LIKE\<rparr>
      (\<lambda>n. False) (map ord ''hi.'') (rng_of_list [a, b, c, d, e, f])
    = ([\<lparr>it_cursor = 0, it_branch = Direct, it_events =
          [Send (ord CHR ''h''), Sleep (0.05 + 0.15 * (real (b mod 2 ^ 53) / 2 ^ 53))]\<rparr>,
        \<lparr>it_cursor = 1, it_branch = Direct, it_events =
          [Send (ord CHR ''i''), Sleep (0.05 + 0.15 * (real (d mod 2 ^ 53) / 2 ^ 53))]\<rparr>,
        \<lparr>it_cursor = 2, it_branch = Direct, it_events =
          [Send (ord CHR ''.''),
           Sleep (2.0 * (0.05 + 0.15 * (real (f mod 2 ^ 53) / 2 ^ 53)))]\<rparr>],
       Finished, rng_of_list [])"
proof -
  have nn: "\<And>k::nat. \<not> real (k mod 2 ^ 53) / 2 ^ 53 < 0"
    by (simp add: not_less)
  have pos: "\<And>k::nat. \<not> 0.05 + 0.15 * (real (k mod 2 ^ 53) / 2 ^ 53) < (0::real)"
    by (simp add: not_less add_nonneg_nonneg)
  have pos2: "\<And>k::nat. \<not> (0.05 + 0.15 * (real (k mod 2 ^ 53) / 2 ^ 53)) * 2 < (0::real)"
    using pos by (simp add: not_less)
  show ?thesis
    using nn pos pos2 by (simp add: eval_defs)
qed

section \<open>Lemmas about cancellation\<close>

lemma time_sleep_sends: "time_sleep t = Inr sl \<Longrightarrow> sends sl = []"
  by (auto simp: time_sleep_def split: if_splits)

lemma send_with_delay_events:
  "send_with_delay d cs g = (es, r, g') \<Longrightarrow>
   length (sends es) \<le> length cs \<and> (cs = [] \<longrightarrow> es = [])
   \<and> (cs \<noteq> [] \<longrightarrow> (\<exists>c es'. es = Send c # es'))"
proof (induction cs arbitrary: g es r g')
  case Nil
  then show ?case by simp
next
  case (Cons c cs)
  obtain t g1 where u: "random_uniform (fst d) (snd d) g = (t, g1)"
    by (cases "random_uniform (fst d) (snd d) g")
  show ?case
  proof (cases "time_sleep t")
    case (Inl e)
    then show ?thesis using Cons.prems u by auto
  next
    case (Inr sl)
    obtain es2 r2 g2 where rec: "send_with_delay d cs g1 = (es2, r2, g2)"
      by (cases "send_with_delay d cs g1")
    from Cons.IH [OF rec] have "length (sends es2) \<le> length cs" by simp
    moreover have "es = Send c # sl @ es2" using Cons.prems u Inr rec by simp
    ultimately show ?thesis using time_sleep_sends [OF Inr] by (simp add: sends_append)
  qed
qed

lemma send_backspaces_events:
  "send_backspaces cs g = (es, r, g') \<Longrightarrow> length (sends es) \<le> length cs"
proof (induction cs arbitrary: g es r g')
  case Nil
  then show ?case by simp
next
  case (Cons c cs)
  obtain t g1 where u: "random_uniform 0.05 0.15 g = (t, g1)"
    by (cases "random_uniform 0.05 0.15 g")
  show ?case
  proof (cases "time_sleep t")
    case (Inl e)
    then show ?thesis using Cons.prems u by auto
  next
    case (Inr sl)
    obtain es2 r2 g2 where rec: "send_backspaces cs g1 = (es2, r2, g2)"
      by (cases "send_backspaces cs g1")
    from Cons.IH [OF rec] have "length (sends es2) \<le> length cs" by simp
    moreover have "es = Send 8 # sl @ es2" using Cons.prems u Inr rec by simp
    ultimately show ?thesis using time_sleep_sends [OF Inr] by (simp add: sends_append)
  qed
qed

lemma typo_chars_loop_length:
  "typo_chars_loop alpha src i js acc g = Inr (cs, g') \<Longrightarrow> length cs = length acc + length js"
  by (induction js arbitrary: acc g)
    (auto split: if_splits sum.splits prod.splits)

lemma originals_length: "length (originals src i k) \<le> k"
proof -
  have "length (filter (\<lambda>j. i + j < length src) [0..<k]) \<le> length [0..<k]"
    by (rule length_filter_le)
  then show ?thesis by (simp add: originals_def)
qed

lemma randint_window_bounds:
  assumes "random_randint 1 (min 3 x) g = Inr (drawn, g0)"
  shows "1 \<le> nat drawn \<and> nat drawn \<le> 3"
proof -
  define m where "m = nat (min 3 x)"
  have nz: "\<not> min 3 x < 1" using assms by (auto simp: random_randint_def split: if_splits)
  then have m: "1 \<le> m" "m \<le> 3" by (auto simp: m_def)
  have "g 0 mod m < m" using m by simp
  then have "g 0 mod m < 3" using m by linarith
  moreover have "drawn = 1 + int (g 0 mod m)"
    using assms nz by (auto simp: random_randint_def m_def)
  then have "nat drawn = Suc (g 0 mod m)" by simp
  ultimately show ?thesis by simp
qed

lemma simulate_typo_events:
  assumes "simulate_typo alpha self src i g = (es, r, g')"
  shows "length (sends es) \<le> 9 \<and> (es = [] \<or> (\<exists>c es'. es = Send c # es'))"
proof (cases "random_randint 1 (min 3 (int (length src) - int i)) g")
  case (Inl e)
  then show ?thesis using assms by (simp add: simulate_typo_def)
next
  case (Inr dg)
  obtain drawn g0 where dg: "dg = (drawn, g0)" by (cases dg)
  define k where "k = nat drawn"
  have k: "1 \<le> k" "k \<le> 3"
    using randint_window_bounds [of "int (length src) - int i" g drawn g0] Inr dg
    by (simp_all add: k_def)
  show ?thesis
  proof (cases "typo_chars_loop alpha src i [0..<k] [] g0")
    case (Inl e)
    then show ?thesis using assms Inr dg by (simp add: simulate_typo_def k_def)
  next
    case (Inr cg)
    obtain cs g1 where cg: "cg = (cs, g1)" by (cases cg)
    have len: "length cs = k" using typo_chars_loop_length [of alpha src i "[0..<k]" "[]" g0 cs g1] Inr cg
      by simp
    obtain es1 r1 g2 where s1: "send_with_delay (typing_delay self) cs g1 = (es1, r1, g2)"
      by (cases "send_with_delay (typing_delay self) cs g1")
    from send_with_delay_events [OF s1] len k obtain c es1' where
      e1: "es1 = Send c # es1'" "length (sends es1) \<le> k" by auto
    have start: "simulate_typo alpha self src i g =
       (case (es1, r1, g2) of
        (es1, Some e, g2) \<Rightarrow> (es1, Inl e, g2)
      | (es1, None, g2) \<Rightarrow>
     (case random_uniform 0.1 0.3 g2 of (t, g3) \<Rightarrow>
      case time_sleep t of
        Inl e \<Rightarrow> (es1, Inl e, g3)
      | Inr pause \<Rightarrow>
     (case send_backspaces cs g3 of
        (es2, Some e, g4) \<Rightarrow> (es1 @ pause @ es2, Inl e, g4)
      | (es2, None, g4) \<Rightarrow>
     (case send_with_delay (typing_delay self) (originals src i k) g4 of
        (es3, Some e, g5) \<Rightarrow> (es1 @ pause @ es2 @ es3, Inl e, g5)
      | (es3, None, g5) \<Rightarrow> (es1 @ pause @ es2 @ es3, Inr k, g5)))))"
      using \<open>random_randint 1 (min 3 (int (length src) - int i)) g = Inr dg\<close> dg Inr cg s1
      unfolding k_def by (simp add: simulate_typo_def Let_def)
    show ?thesis
    proof (cases r1)
      case (Some e)
      then show ?thesis using assms start e1 k by auto
    next
      case None
      obtain t g3 where p: "random_uniform 0.1 0.3 g2 = (t, g3)"
        by (cases "random_uniform 0.1 0.3 g2")
      show ?thesis
      proof (cases "time_sleep t")
        case (Inl e)
        then show ?thesis using assms start None p e1 k by auto
      next
        case (Inr pause)
        note ps = time_sleep_sends [OF Inr]
        obtain es2 r2 g4 where s2: "send_backspaces cs g3 = (es2, r2, g4)"
          by (cases "send_backspaces cs g3")
        have e2: "length (sends es2) \<le> k" using send_backspaces_events [OF s2] len by simp
        show ?thesis
        proof (cases r2)
          case (Some e)
          then have "es = es1 @ pause @ es2" using assms start None p Inr s2 by simp
          then show ?thesis using e1 e2 ps k by (simp add: sends_append)
        next
          case None2: None
          obtain es3 r3 g5 where
            s3: "send_with_delay (typing_delay self) (originals src i k) g4 = (es3, r3, g5)"
            by (cases "send_with_delay (typing_delay self) (originals src i k) g4")
          have e3: "length (sends es3) \<le> k"
            using send_with_delay_events [OF s3] originals_length [of src i k] by simp
          have "es = es1 @ pause @ es2 @ es3"
            using assms start None p Inr s2 None2 s3 by (cases r3) simp_all
          then show ?thesis using e1 e2 e3 ps k by (simp add: sends_append)
        qed
      qed
    qed
  qed
qed

lemma dispatch_events:
  "dispatch self c last_char g = (es, r, g') \<Longrightarrow> \<exists>es'. es = Send c # es' \<and> sends es' = []"
  by (auto simp: dispatch_def time_sleep_def case_prod_beta split: if_splits)

lemma pass_events:
  assumes "typing_iteration alpha self b src i last_char g = (Some it, ctl, g')"
  shows "length (sends (it_events it)) \<le> 9
     \<and> (it_events it = [] \<or> (\<exists>c es'. it_events it = Send c # es'))"
proof -
  have nb: "\<not> b" using assms by (auto simp: typing_iteration_def)
  let ?g1 = "snd (random_random g)"
  show ?thesis
  proof (cases "fst (random_random g) < error_rate self \<and> isalpha alpha (src ! i)")
    case True
    obtain es r g2 where t: "simulate_typo alpha self src i ?g1 = (es, r, g2)"
      by (cases "simulate_typo alpha self src i ?g1")
    then have "it_events it = es"
      using assms nb True by (cases r) (auto simp: typing_iteration_def case_prod_beta Let_def)
    then show ?thesis using simulate_typo_events [OF t] by simp
  next
    case False
    obtain es r g2 where d: "dispatch self (src ! i) last_char ?g1 = (es, r, g2)"
      by (cases "dispatch self (src ! i) last_char ?g1")
    then have "it_events it = es"
      using assms nb False by (cases r) (auto simp: typing_iteration_def case_prod_beta Let_def)
    then show ?thesis using dispatch_events [OF d] by auto
  qed
qed

lemma cancelled_at_check:
  "i < length src \<Longrightarrow> stop n \<Longrightarrow>
   simulate_typing_loop alpha self stop src i last_char g n = ([], Cancelled, g)"
  by (simp add: typing_iteration_stopped)

section \<open>Lemmas about the engine\<close>

declare join.simps [simp del]

lemma thread_step_dead: "\<not> is_alive s t \<Longrightarrow> thread_step alpha s t = s"
  by (auto simp: thread_step_def is_alive_def)

lemma thread_step_frame:
  "length (threads (thread_step alpha s t)) = length (threads s)"
  "typing_thread (thread_step alpha s t) = typing_thread s"
  "stop_event (thread_step alpha s t) = stop_event s"
  by (auto simp: thread_step_def Let_def split: list.splits control.splits prod.splits)

lemma thread_step_alive: "is_alive (thread_step alpha s t) u \<Longrightarrow> is_alive s u"
  by (auto simp: thread_step_def is_alive_def Let_def nth_list_update
      split: list.splits control.splits prod.splits if_splits)


lemma join_frame:
  "length (threads (join alpha s t)) = length (threads s)
   \<and> typing_thread (join alpha s t) = typing_thread s
   \<and> stop_event (join alpha s t) = stop_event s"
proof (induction alpha s t rule: join.induct)
  case (1 alpha s t)
  then show ?case by (cases "is_alive s t") (simp_all add: join.simps [of alpha s t] thread_step_frame)
qed

lemma join_alive: "is_alive (join alpha s t) u \<Longrightarrow> is_alive s u"
proof (induction alpha s t rule: join.induct)
  case (1 alpha s t)
  then show ?case
    by (cases "is_alive s t") (auto simp: join.simps [of alpha s t] dest: thread_step_alive)
qed

lemma join_dead: "\<not> is_alive (join alpha s t) t"
proof (induction alpha s t rule: join.induct)
  case (1 alpha s t)
  then show ?case by (cases "is_alive s t") (simp_all add: join.simps [of alpha s t])
qed






lemma is_alive_updates [simp]:
  "is_alive (s\<lparr>stop_event := b\<rparr>) t = is_alive s t"
  "is_alive (s\<lparr>typing_delay := d\<rparr>) t = is_alive s t"
  "is_alive (s\<lparr>error_rate := r\<rparr>) t = is_alive s t"
  "is_alive (s\<lparr>mode := m\<rparr>) t = is_alive s t"
  "is_alive (s\<lparr>injected := l\<rparr>) t = is_alive s t"
  by (simp_all add: is_alive_def)


lemma type_text_joined:
  "type_text alpha s src =
     (joined alpha s)\<lparr>stop_event := False,
        typing_thread := Some (length (threads (joined alpha s))),
        threads := threads (joined alpha s) @
          [\<lparr>th_text = src, th_pending = [], th_ctl = Continue 0 None, th_alive = True\<rparr>]\<rparr>"
  by (simp add: type_text_def joined_def Let_def)

lemma joined_frame:
  "length (threads (joined alpha s)) = length (threads s)"
  by (simp add: joined_def join_frame split: option.splits)



lemma joined_quiet: "only_current s \<Longrightarrow> \<not> is_alive (joined alpha s) t"
proof
  assume oc: "only_current s" and al: "is_alive (joined alpha s) t"
  show False
  proof (cases "typing_thread s")
    case None
    then show ?thesis using oc al by (simp add: joined_def only_current_def)
  next
    case (Some u)
    show ?thesis
    proof (cases "is_alive s u")
      case True
      then have j: "joined alpha s = join alpha s u" using Some by (simp add: joined_def)
      then have "is_alive s t" using al join_alive by metis
      then have "t = u" using oc Some by (simp add: only_current_def)
      then show ?thesis using al j join_dead by metis
    next
      case False
      then have "joined alpha s = s" using Some by (simp add: joined_def)
      then show ?thesis using al oc Some False by (auto simp: only_current_def)
    qed
  qed
qed

lemma type_text_alive:
  "only_current s \<Longrightarrow> is_alive (type_text alpha s src) t = (t = length (threads s))"
  using joined_quiet [of s alpha t] joined_frame [of alpha s]
  by (auto simp: type_text_joined is_alive_def nth_append)

lemma type_text_frame:
  "length (threads (type_text alpha s src)) = Suc (length (threads s))"
  "typing_thread (type_text alpha s src) = Some (length (threads s))"
  "stop_event (type_text alpha s src) = False"
  "injected (type_text alpha s src) = injected (joined alpha s)"
  by (simp_all add: type_text_joined joined_frame)









lemma only_current_perform: "only_current s \<Longrightarrow> only_current (perform alpha s a)"
proof (cases a)
  case (Run t)
  assume "only_current s"
  then show ?thesis using Run
    by (auto simp: only_current_def thread_step_frame dest: thread_step_alive)
next
  case (Call c)
  assume oc: "only_current s"
  show ?thesis
  proof (cases c)
    case (TypeText src)
    then show ?thesis using Call oc
      by (simp add: only_current_def type_text_alive type_text_frame)
  next
    case StopTyping
    have "only_current (s\<lparr>stop_event := True\<rparr>)" using oc by (simp add: only_current_def)
    then show ?thesis using Call StopTyping
      by (auto simp: stop_typing_def Let_def only_current_def join_frame
          split: option.splits dest: join_alive)
  next
    case WaitUntilDone
    then show ?thesis using Call oc
      by (auto simp: wait_until_done_def only_current_def join_frame
          split: option.splits dest: join_alive)
  qed (use Call oc in \<open>auto simp: set_typing_speed_def set_error_rate_def set_typing_mode_def
        press_enter_def only_current_def\<close>)
qed

lemma execute_Cons: "execute alpha s (a # acts) = execute alpha (perform alpha s a) acts"
  by (simp add: execute_def)

lemma execute_Nil: "execute alpha s [] = s"
  by (simp add: execute_def)


lemma only_current_execute: "only_current s \<Longrightarrow> only_current (execute alpha s acts)"
  by (induction acts arbitrary: s) (simp_all add: execute_Cons execute_Nil only_current_perform)


lemma new_typer_invariants: "only_current (new_typer p g) \<and> log_known (new_typer p g)"
  by (simp add: only_current_def log_known_def new_typer_def is_alive_def)






lemma stop_typing_quiet:
  assumes "only_current s"
  shows "\<not> is_alive (stop_typing alpha s) t"
proof
  assume al: "is_alive (stop_typing alpha s) t"
  let ?s1 = "s\<lparr>stop_event := True\<rparr>"
  show False
  proof (cases "typing_thread s")
    case None
    then show ?thesis using al assms by (simp add: stop_typing_def only_current_def)
  next
    case (Some u)
    then have st: "stop_typing alpha s = join alpha ?s1 u" by (simp add: stop_typing_def)
    then have "is_alive ?s1 t" using al join_alive by metis
    then have "typing_thread s = Some t" using assms unfolding only_current_def by simp
    then have "t = u" using Some by simp
    then show ?thesis using al st join_dead by metis
  qed
qed

lemma quiet_runs:
  "\<forall>t. \<not> is_alive s t \<Longrightarrow> execute alpha s (map Run ts) = s"
  by (induction ts) (simp_all add: execute_Nil execute_Cons thread_step_dead)

lemma stop_typing_flag: "stop_event (stop_typing alpha s)"
  by (cases "typing_thread s") (simp_all add: stop_typing_def join_frame)

lemma sends_tail_le: "length (sends es) \<le> length (sends (e # es))"
  by (cases e) simp_all

lemma pending_bounded_update:
  assumes "pending_bounded s" "length (sends (th_pending th)) \<le> 9"
  shows "\<forall>x\<in>set ((threads s)[t := th]). length (sends (th_pending x)) \<le> 9"
proof
  fix x assume "x \<in> set ((threads s)[t := th])"
  then have "x = th \<or> x \<in> set (threads s)"
    using set_update_subset_insert [of "threads s" t th] by auto
  then show "length (sends (th_pending x)) \<le> 9"
    using assms by (auto simp: pending_bounded_def)
qed

lemma pending_bounded_thread_step:
  assumes pb: "pending_bounded s"
  shows "pending_bounded (thread_step alpha s t)"
proof (cases "is_alive s t")
  case False
  then show ?thesis using pb by (simp add: thread_step_dead)
next
  case True
  let ?th = "threads s ! t"
  have mem: "?th \<in> set (threads s)" using True by (simp add: is_alive_def)
  then have b: "length (sends (th_pending ?th)) \<le> 9" using pb by (simp add: pending_bounded_def)
  have dead: "pending_bounded (s\<lparr>threads := (threads s)[t := ?th\<lparr>th_alive := False\<rparr>]\<rparr>)"
    using pending_bounded_update [OF pb, of "?th\<lparr>th_alive := False\<rparr>" t] b
    by (simp add: pending_bounded_def)
  show ?thesis
  proof (cases "th_pending ?th")
    case (Cons e es)
    then have "length (sends es) \<le> 9" using b sends_tail_le [of es e] by simp
    then have "pending_bounded (s\<lparr>threads := (threads s)[t := ?th\<lparr>th_pending := es\<rparr>],
               injected := injected s @ [(Some t, e)]\<rparr>)"
      using pending_bounded_update [OF pb, of "?th\<lparr>th_pending := es\<rparr>" t]
      by (simp add: pending_bounded_def)
    then show ?thesis using True Cons by (simp add: thread_step_def is_alive_def Let_def)
  next
    case Nil
    show ?thesis
    proof (cases "th_ctl ?th")
      case (Continue i l)
      show ?thesis
      proof (cases "i < length (th_text ?th)")
        case False
        then show ?thesis using True Nil Continue dead
          by (simp add: thread_step_def is_alive_def Let_def)
      next
        case lt: True
        obtain it ctl g' where
          ti: "typing_iteration alpha s (stop_event s) (th_text ?th) i l (random_state s)
               = (it, ctl, g')"
          by (cases "typing_iteration alpha s (stop_event s) (th_text ?th) i l (random_state s)")
        let ?es = "case it of None \<Rightarrow> [] | Some r \<Rightarrow> it_events r"
        have "length (sends ?es) \<le> 9"
        proof (cases it)
          case None
          then show ?thesis by simp
        next
          case (Some r)
          then show ?thesis using pass_events [OF ti [unfolded Some]] by simp
        qed
        then have "pending_bounded (s\<lparr>threads := (threads s)
                     [t := ?th\<lparr>th_pending := ?es, th_ctl := ctl\<rparr>], random_state := g'\<rparr>)"
          using pending_bounded_update [OF pb, of "?th\<lparr>th_pending := ?es, th_ctl := ctl\<rparr>" t]
          by (simp add: pending_bounded_def)
        then show ?thesis using True Nil Continue lt ti
          by (simp add: thread_step_def is_alive_def Let_def)
      qed
    next
      case Return
      then show ?thesis using True Nil dead by (simp add: thread_step_def is_alive_def Let_def)
    next
      case (Raise e)
      then show ?thesis using True Nil dead by (simp add: thread_step_def is_alive_def Let_def)
    qed
  qed
qed

lemma pending_bounded_join: "pending_bounded s \<Longrightarrow> pending_bounded (join alpha s t)"
proof (induction alpha s t rule: join.induct)
  case (1 alpha s t)
  then show ?case
    by (cases "is_alive s t") (simp_all add: join.simps [of alpha s t] pending_bounded_thread_step)
qed

lemma pending_bounded_fields [simp]:
  "pending_bounded (s\<lparr>stop_event := b\<rparr>) = pending_bounded s"
  "pending_bounded (s\<lparr>typing_delay := d\<rparr>) = pending_bounded s"
  "pending_bounded (s\<lparr>error_rate := r\<rparr>) = pending_bounded s"
  "pending_bounded (s\<lparr>mode := m\<rparr>) = pending_bounded s"
  "pending_bounded (s\<lparr>injected := l\<rparr>) = pending_bounded s"
  by (simp_all add: pending_bounded_def)

lemma pending_bounded_perform: "pending_bounded s \<Longrightarrow> pending_bounded (perform alpha s a)"
proof (cases a)
  case (Run t)
  assume "pending_bounded s"
  then show ?thesis using Run by (simp add: pending_bounded_thread_step)
next
  case (Call c)
  assume pb: "pending_bounded s"
  show ?thesis
  proof (cases c)
    case (TypeText src)
    have "pending_bounded (joined alpha s)"
      using pb by (simp add: joined_def pending_bounded_join split: option.splits)
    then show ?thesis using Call TypeText
      by (simp add: type_text_joined pending_bounded_def)
  next
    case StopTyping
    then show ?thesis using Call pb
      by (cases "typing_thread s") (simp_all add: stop_typing_def pending_bounded_join)
  next
    case WaitUntilDone
    then show ?thesis using Call pb
      by (cases "typing_thread s") (simp_all add: wait_until_done_def pending_bounded_join)
  qed (use Call pb in \<open>simp_all add: set_typing_speed_def set_error_rate_def set_typing_mode_def
        press_enter_def\<close>)
qed

lemma pending_bounded_execute: "pending_bounded s \<Longrightarrow> pending_bounded (execute alpha s acts)"
  by (induction acts arbitrary: s) (simp_all add: execute_Cons execute_Nil pending_bounded_perform)

lemma pending_bounded_new: "pending_bounded (new_typer p g)"
  by (simp add: pending_bounded_def new_typer_def)

lemma thread_step_stopped:
  assumes "stop_event s" "is_alive s t"
  shows "injected (thread_step alpha s t) @ rest_of_pass (thread_step alpha s t) t
         = injected s @ rest_of_pass s t"
proof -
  let ?th = "threads s ! t"
  have lt: "t < length (threads s)" and al: "th_alive ?th" using assms(2) by (auto simp: is_alive_def)
  show ?thesis
  proof (cases "th_pending ?th")
    case (Cons e es)
    then show ?thesis using lt al
      by (simp add: thread_step_def rest_of_pass_def is_alive_def Let_def)
  next
    case Nil
    show ?thesis
    proof (cases "th_ctl ?th")
      case (Continue i l)
      then show ?thesis using lt al Nil assms(1)
        by (simp add: thread_step_def rest_of_pass_def is_alive_def Let_def
            typing_iteration_stopped)
    next
      case Return
      then show ?thesis using lt al Nil
        by (simp add: thread_step_def rest_of_pass_def is_alive_def Let_def)
    next
      case (Raise e)
      then show ?thesis using lt al Nil
        by (simp add: thread_step_def rest_of_pass_def is_alive_def Let_def)
    qed
  qed
qed

lemma join_stopped:
  "stop_event s \<Longrightarrow> injected (join alpha s t) = injected s @ rest_of_pass s t"
proof (induction alpha s t rule: join.induct)
  case (1 alpha s t)
  show ?case
  proof (cases "is_alive s t")
    case False
    then show ?thesis by (simp add: join.simps [of alpha s t] rest_of_pass_def)
  next
    case True
    have st: "stop_event (thread_step alpha s t)" using "1.prems" by (simp add: thread_step_frame)
    have "injected (join alpha s t) = injected (join alpha (thread_step alpha s t) t)"
      using True by (simp add: join.simps [of alpha s t])
    also have "\<dots> = injected (thread_step alpha s t) @ rest_of_pass (thread_step alpha s t) t"
      using "1.IH" [OF True st] .
    also have "\<dots> = injected s @ rest_of_pass s t"
      using thread_step_stopped [OF "1.prems" True] .
    finally show ?thesis .
  qed
qed

lemma rest_of_pass_stop [simp]: "rest_of_pass (s\<lparr>stop_event := b\<rparr>) t = rest_of_pass s t"
  by (simp add: rest_of_pass_def)

lemma stop_typing_log:
  "injected (stop_typing alpha s) =
     injected s @ (case typing_thread s of None \<Rightarrow> [] | Some t \<Rightarrow> rest_of_pass s t)"
proof (cases "typing_thread s")
  case None
  then show ?thesis by (simp add: stop_typing_def)
next
  case (Some t)
  then show ?thesis
    using join_stopped [of "s\<lparr>stop_event := True\<rparr>" alpha t] by (simp add: stop_typing_def)
qed

lemma rest_of_pass_sends:
  "pending_bounded s \<Longrightarrow> length (sends (map snd (rest_of_pass s t))) \<le> 9"
  by (auto simp: rest_of_pass_def pending_bounded_def is_alive_def comp_def)

text \<open>The equations that evaluate the engine on a concrete run.\<close>

lemmas engine_eval = execute_def type_text_def stop_typing_def new_typer_def thread_step_def
  is_alive_def join.simps active_def

section \<open>Lemmas about the backends\<close>

lemma windows_send_input_events:
  "windows_send_input 10 =
       [SendInput \<lparr>input_type = 1,
          ki = \<lparr>wVk = 0x0D, wScan = 0, dwFlags = 0, time = 0, dwExtraInfo = None\<rparr>\<rparr>,
        OsSleep 0.01,
        SendInput \<lparr>input_type = 1,
          ki = \<lparr>wVk = 0x0D, wScan = 0, dwFlags = 2, time = 0, dwExtraInfo = None\<rparr>\<rparr>]
   \<and> (c \<noteq> 10 \<longrightarrow>
        windows_send_input c =
          [SendInput \<lparr>input_type = 1,
             ki = \<lparr>wVk = 0, wScan = of_nat c, dwFlags = 4, time = 0, dwExtraInfo = None\<rparr>\<rparr>,
           OsSleep 0.01,
           SendInput \<lparr>input_type = 1,
             ki = \<lparr>wVk = 0, wScan = of_nat c, dwFlags = 6, time = 0, dwExtraInfo = None\<rparr>\<rparr>]
        \<and> (4::32 word) AND 4 \<noteq> 0 \<and> (6::32 word) AND 4 \<noteq> 0
        \<and> (c < 65536 \<longrightarrow> unat (of_nat c :: 16 word) = c))"
  by (simp add: windows_send_input_def ord_def input_keyboard_const_def
      keyeventf_unicode_flag_def keyeventf_keyup_flag_def Let_def unat_of_nat
      take_bit_nat_eq_self)

text \<open>
  On a display that had the three attributes, the X11 backend would send one press and
  one release of the keycode of the keysym; on the display of python-xlib every call
  raises before anything is sent.
\<close>

lemma x11_send_input_complete:
  "keysym_method d = Some keysym \<Longrightarrow> key_press_event_method d \<Longrightarrow>
   key_release_event_method d \<Longrightarrow>
   x11_send_input d 10 =
     ([Sync, KeyPress \<lparr>detail = keysym_to_keycode d 0xFF0D, window = input_focus d\<rparr>,
       OsSleep 0.01,
       KeyRelease \<lparr>detail = keysym_to_keycode d 0xFF0D, window = input_focus d\<rparr>, Sync],
      None)
   \<and> (c \<noteq> 10 \<longrightarrow> x11_keysym d c = Inr (if keysym c = 0 then c else keysym c))"
  by (simp add: x11_send_input_def x11_keysym_def ord_def Let_def)

lemma x11_send_input_other:
  "c \<noteq> 10 \<Longrightarrow> x11_send_input (xlib_display to_keycode focus) c = ([], Some AttributeError)"
  by (simp add: x11_send_input_def x11_keysym_def xlib_display_def ord_def)

section \<open>Properties of the setters and of the backends\<close>

text \<open>
  Claim C7. Whatever real number \<^verbatim>\<open>set_error_rate\<close> is given, the error rate read
  afterwards is that number clamped into \<open>[0, 1]\<close>: \<open>max 0 (min 1 x)\<close>. The call cannot
  fail, and it leaves the delay range and the mode alone.
\<close>

theorem set_error_rate_clamps:
  "error_rate (set_error_rate s x) = max 0 (min 1 x)
   \<and> 0 \<le> error_rate (set_error_rate s x)
   \<and> error_rate (set_error_rate s x) \<le> 1
   \<and> typing_delay (set_error_rate s x) = typing_delay s
   \<and> mode (set_error_rate s x) = mode s"
  by (simp add: set_error_rate_def)

theorem set_error_rate_clamps_witness:
  "error_rate (set_error_rate (new_typer Windows (rng_of_list [])) 1.5) = 1
   \<and> error_rate (set_error_rate (new_typer Windows (rng_of_list [])) (-3)) = 0
   \<and> error_rate (set_error_rate (new_typer Windows (rng_of_list [])) 0.25) = 0.25"
  using set_error_rate_clamps [of "new_typer Windows (rng_of_list [])" "1.5"]
    set_error_rate_clamps [of "new_typer Windows (rng_of_list [])" "-3"]
    set_error_rate_clamps [of "new_typer Windows (rng_of_list [])" "0.25"]
  by simp

text \<open>
  Claim C10. \<^verbatim>\<open>set_typing_speed\<close> stores its two arguments as they are, whatever their
  signs and their order, and touches nothing else; there is no failing case.
\<close>

theorem set_typing_speed_unvalidated:
  "typing_delay (set_typing_speed s min_delay max_delay) = (min_delay, max_delay)
   \<and> error_rate (set_typing_speed s min_delay max_delay) = error_rate s
   \<and> mode (set_typing_speed s min_delay max_delay) = mode s
   \<and> stop_event (set_typing_speed s min_delay max_delay) = stop_event s
   \<and> threads (set_typing_speed s min_delay max_delay) = threads s
   \<and> injected (set_typing_speed s min_delay max_delay) = injected s"
  by (simp add: set_typing_speed_def)

theorem set_typing_speed_unvalidated_witness:
  "typing_delay (set_typing_speed (new_typer Windows (rng_of_list [])) (-1) (-5)) = (-1, -5)
   \<and> typing_delay (set_typing_speed (new_typer Windows (rng_of_list [])) 3 2) = (3, 2)"
  using set_typing_speed_unvalidated [of "new_typer Windows (rng_of_list [])" "-1" "-5"]
    set_typing_speed_unvalidated [of "new_typer Windows (rng_of_list [])" 3 2]
  by simp

text \<open>
  Claim C8, at an input where the code departs from it. \<^verbatim>\<open>press_enter\<close> makes one call of
  the backend, with the newline, whatever the mode and the error rate are. On Windows
  that call is one key-down and one key-up of the virtual key \<open>0x0D\<close> with the unicode flag
  clear, as the claim says. On X11 the keysym is \<open>0xFF0D\<close>, but the call then looks up
  \<^verbatim>\<open>_key_press_event\<close> on the display, which the display of python-xlib does not have:
  the call raises \<^verbatim>\<open>AttributeError\<close> after the first \<^verbatim>\<open>sync\<close>, and neither a key press
  nor a key release is sent. The lemmas \<open>windows_send_input_events\<close> and
  \<open>x11_send_input_other\<close> above hold what the backends do for the other characters.
\<close>

theorem press_enter_x11_raises:
  "injected (press_enter (s\<lparr>mode := m, error_rate := r\<rparr>)) = injected s @ [(None, Send 10)]
   \<and> x11_keysym (xlib_display to_keycode focus) 10 = Inr 0xFF0D
   \<and> backend_events (xlib_display to_keycode focus) X11 10 = ([Sync], Some AttributeError)
   \<and> backend_events d Windows 10 =
       ([SendInput \<lparr>input_type = 1,
           ki = \<lparr>wVk = 0x0D, wScan = 0, dwFlags = 0, time = 0, dwExtraInfo = None\<rparr>\<rparr>,
         OsSleep 0.01,
         SendInput \<lparr>input_type = 1,
           ki = \<lparr>wVk = 0x0D, wScan = 0, dwFlags = 2, time = 0, dwExtraInfo = None\<rparr>\<rparr>],
        None)"
  by (simp add: press_enter_def backend_events_def windows_send_input_def x11_send_input_def
      x11_keysym_def xlib_display_def ord_def input_keyboard_const_def
      keyeventf_unicode_flag_def keyeventf_keyup_flag_def Let_def)

section \<open>Properties of the typo detour\<close>






section \<open>Properties of the loop\<close>



text \<open>
  Claim C5, as amended. A character injected directly in \<^verbatim>\<open>INSTANT\<close> mode is followed by
  no sleep at all. A character injected directly in \<^verbatim>\<open>MACHINE_GUN\<close> mode is followed by
  one sleep of the lower bound of the delay range (when that bound is not negative). A
  task in \<^verbatim>\<open>INSTANT\<close> mode that is not cancelled and in which no detour is taken sends the
  text and never sleeps, and it runs the same whatever the delay range is.
\<close>

theorem mode_delays:
  "(mode self = INSTANT \<longrightarrow> dispatch self c last_char g = ([Send c], None, g))
   \<and> (mode self = MACHINE_GUN \<and> 0 \<le> fst (typing_delay self) \<longrightarrow>
        dispatch self c last_char g = ([Send c, Sleep (fst (typing_delay self))], None, g))
   \<and> (mode self = INSTANT
        \<and> (\<forall>it\<in>set (fst (simulate_typing alpha self (\<lambda>n. False) src g)).
              it_branch it = Direct) \<longrightarrow>
        trace (fst (simulate_typing alpha self (\<lambda>n. False) src g)) = map Send src
        \<and> fst (snd (simulate_typing alpha self (\<lambda>n. False) src g)) = Finished
        \<and> simulate_typing alpha (self\<lparr>typing_delay := d\<rparr>) (\<lambda>n. False) src g
            = simulate_typing alpha self (\<lambda>n. False) src g)"
  using dispatch_instant [of self c last_char g] dispatch_machine_gun [of self c last_char g]
    instant_loop_direct [of self "\<lambda>n. False" alpha src 0 None g 0 d]
  by (simp add: simulate_typing_def)

theorem mode_delays_witness:
  "dispatch \<lparr>typing_delay = (0.03, 0.1), error_rate = 0.005, mode = MACHINE_GUN\<rparr> 97 None
      (rng_of_list []) = ([Send 97, Sleep 0.03], None, rng_of_list [])
   \<and> trace (fst (simulate_typing (\<lambda>c. False)
        \<lparr>typing_delay = (0.03, 0.1), error_rate = 1, mode = INSTANT\<rparr>
        (\<lambda>n. False) [49, 50, 46] (rng_of_list []))) = [Send 49, Send 50, Send 46]
   \<and> simulate_typing (\<lambda>c. False)
        \<lparr>typing_delay = (7, 9), error_rate = 1, mode = INSTANT\<rparr>
        (\<lambda>n. False) [49, 50, 46] (rng_of_list [])
      = simulate_typing (\<lambda>c. False)
        \<lparr>typing_delay = (0.03, 0.1), error_rate = 1, mode = INSTANT\<rparr>
        (\<lambda>n. False) [49, 50, 46] (rng_of_list [])"
proof -
  let ?mg = "\<lparr>typing_delay = (0.03, 0.1), error_rate = 0.005, mode = MACHINE_GUN\<rparr>"
  let ?in = "\<lparr>typing_delay = (0.03, 0.1), error_rate = 1, mode = INSTANT\<rparr>"
  have a: "mode ?mg = MACHINE_GUN \<and> 0 \<le> fst (typing_delay ?mg)" by simp
  have b: "mode ?in = INSTANT
        \<and> (\<forall>it\<in>set (fst (simulate_typing (\<lambda>c. False) ?in (\<lambda>n. False) [49, 50, 46]
              (rng_of_list []))). it_branch it = Direct)"
    by (simp add: eval_defs)
  from a mode_delays [where self = ?mg and c = 97 and last_char = None and g = "rng_of_list []"]
  have 1: "dispatch ?mg 97 None (rng_of_list []) = ([Send 97, Sleep 0.03], None, rng_of_list [])"
    by simp
  from b mode_delays [where self = ?in and alpha = "\<lambda>c. False" and src = "[49, 50, 46]"
      and g = "rng_of_list []" and d = "(7, 9)"]
  have 2: "trace (fst (simulate_typing (\<lambda>c. False) ?in (\<lambda>n. False) [49, 50, 46]
              (rng_of_list []))) = map Send [49, 50, 46]
     \<and> simulate_typing (\<lambda>c. False) (?in\<lparr>typing_delay := (7, 9)\<rparr>) (\<lambda>n. False) [49, 50, 46]
          (rng_of_list [])
        = simulate_typing (\<lambda>c. False) ?in (\<lambda>n. False) [49, 50, 46] (rng_of_list [])"
    by blast
  from 1 2 show ?thesis by simp
qed

text \<open>
  The claim as it was stated says this of every task in \<^verbatim>\<open>INSTANT\<close> mode. It fails when a
  detour is taken: the same text, in \<^verbatim>\<open>INSTANT\<close> mode with the same draws, sleeps for
  different times under the delay ranges \<open>(0.05, 0.2)\<close> and \<open>(1, 2)\<close>.
\<close>

theorem instant_task_delays_counterexample:
  "simulate_typing (\<lambda>c. False)
      \<lparr>typing_delay = (0.05, 0.2), error_rate = 0.005, mode = INSTANT\<rparr>
      (\<lambda>n. False) [97] (rng_of_list [])
    = ([\<lparr>it_cursor = 0, it_branch = Typo, it_events =
          [Send 95, Sleep 0.05, Sleep 0.1, Send 8, Sleep 0.05, Send 97, Sleep 0.05]\<rparr>],
       Finished, rng_of_list [])
   \<and> simulate_typing (\<lambda>c. False)
      \<lparr>typing_delay = (1, 2), error_rate = 0.005, mode = INSTANT\<rparr>
      (\<lambda>n. False) [97] (rng_of_list [])
    = ([\<lparr>it_cursor = 0, it_branch = Typo, it_events =
          [Send 95, Sleep 1, Sleep 0.1, Send 8, Sleep 0.05, Send 97, Sleep 1]\<rparr>],
       Finished, rng_of_list [])"
  by (simp add: eval_defs)

text \<open>
  Claim C4, at an input where the code departs from it. The text is \<^verbatim>\<open>"aa"\<close> in
  \<^verbatim>\<open>HUMAN_LIKE\<close> mode with the default configuration. The first \<^verbatim>\<open>a\<close> goes through a
  detour of window 1, which ends by injecting \<^verbatim>\<open>a\<close>; the second \<^verbatim>\<open>a\<close> is injected
  directly. It equals the character injected just before it, yet its sleep is the base
  draw 0.05 and not 0.8 times it: the detour leaves \<^verbatim>\<open>last_char\<close> as it was, here
  \<^verbatim>\<open>None\<close>. The lemmas \<open>human_like_pass\<close> and \<open>hi_example\<close> above hold the rest of the
  claim: the factors, how they compose, and the example \<^verbatim>\<open>"hi."\<close>.
\<close>

theorem repeated_key_after_detour:
  "simulate_typing (\<lambda>c. False)
      \<lparr>typing_delay = (0.05, 0.2), error_rate = 0.005, mode = HUMAN_LIKE\<rparr>
      (\<lambda>n. False) [97, 97] (rng_of_list [0, 0, 0, 0, 0, 0, 0, 4503599627370496, 0])
    = ([\<lparr>it_cursor = 0, it_branch = Typo, it_events =
          [Send 95, Sleep 0.05, Sleep 0.1, Send 8, Sleep 0.05, Send 97, Sleep 0.05]\<rparr>,
        \<lparr>it_cursor = 1, it_branch = Direct, it_events = [Send 97, Sleep 0.05]\<rparr>],
       Finished, rng_of_list [])
   \<and> human_like_delay 97 (Some 97) 0.05 = 0.04
   \<and> human_like_delay 97 None 0.05 = 0.05"
  by (simp add: eval_defs)

section \<open>Properties of cancellation and of the task life cycle\<close>

text \<open>
  Claim C2, as amended. The flag is checked once in every pass of the loop, before the
  character at the cursor is injected directly and before a detour starts, and not inside
  a detour. A pass that finds the flag set ends the task at once: nothing more is injected
  and the outcome is a cancellation. A pass that has got past its check runs to its end.
  So \<^verbatim>\<open>stop_typing\<close>, called in any state the engine can reach, adds to the log only
  entries of the current thread, the rest of the pass it is in: at most 9 further
  injections (a whole detour of window 3, when the flag is set between the check and the
  first injection), and none when the thread stands at the top of a pass. It returns with the flag set and no
  thread alive, so no later step of any thread adds to the log.
\<close>

theorem cancellation_checked_each_pass:
  fixes alpha p g0 acts
  defines "s \<equiv> execute alpha (new_typer p g0) acts"
  shows "(i < length src \<and> stop n \<longrightarrow>
           simulate_typing_loop alpha self stop src i last_char g n = ([], Cancelled, g))
    \<and> (\<exists>new. injected (stop_typing alpha s) = injected s @ new
           \<and> length (sends (map snd new)) \<le> 9
           \<and> (\<forall>x\<in>set new. fst x = typing_thread s))
    \<and> ((\<forall>t. typing_thread s = Some t \<longrightarrow> th_pending (threads s ! t) = []) \<longrightarrow>
         injected (stop_typing alpha s) = injected s)
    \<and> active (stop_typing alpha s) = [] \<and> stop_event (stop_typing alpha s)
    \<and> execute alpha (stop_typing alpha s) (map Run ts) = stop_typing alpha s"
proof -
  let ?new = "case typing_thread s of None \<Rightarrow> [] | Some t \<Rightarrow> rest_of_pass s t"
  have oc: "only_current s"
    unfolding s_def using new_typer_invariants only_current_execute by blast
  have pb: "pending_bounded s"
    unfolding s_def using pending_bounded_new pending_bounded_execute by blast
  have q: "\<forall>t. \<not> is_alive (stop_typing alpha s) t" using stop_typing_quiet [OF oc] by blast
  then have a: "active (stop_typing alpha s) = []" by (simp add: active_def)
  have b1: "length (sends (map snd ?new)) \<le> 9"
    using rest_of_pass_sends [OF pb] by (cases "typing_thread s") simp_all
  have b2: "\<forall>x\<in>set ?new. fst x = typing_thread s"
    by (cases "typing_thread s") (auto simp: rest_of_pass_def)
  have b: "\<exists>new. injected (stop_typing alpha s) = injected s @ new
           \<and> length (sends (map snd new)) \<le> 9
           \<and> (\<forall>x\<in>set new. fst x = typing_thread s)"
    using stop_typing_log [of alpha s] b1 b2 by blast
  have c: "(\<forall>t. typing_thread s = Some t \<longrightarrow> th_pending (threads s ! t) = []) \<longrightarrow>
         injected (stop_typing alpha s) = injected s"
    by (cases "typing_thread s") (simp_all add: stop_typing_log rest_of_pass_def)
  show ?thesis
    using cancelled_at_check [of i src stop n alpha self last_char g] quiet_runs [OF q]
      stop_typing_flag a b c by simp
qed

theorem cancellation_checked_each_pass_witness:
  "simulate_typing_loop (\<lambda>c. False)
      \<lparr>typing_delay = (0.05, 0.2), error_rate = 0.005, mode = HUMAN_LIKE\<rparr>
      (\<lambda>n. 2 \<le> n) [49, 50, 51] 1 (Some 49) (rng_of_list []) 2 = ([], Cancelled, rng_of_list [])
   \<and> injected (execute (\<lambda>c. False) (new_typer Windows (rng_of_list [0, 2]))
        [Call (TypeText [97, 98, 99]), Run 0]) = []
   \<and> sends (map snd (injected (stop_typing (\<lambda>c. False)
        (execute (\<lambda>c. False) (new_typer Windows (rng_of_list [0, 2]))
           [Call (TypeText [97, 98, 99]), Run 0]))))
      = [95, 96, 97, 8, 8, 8, 97, 98, 99]
   \<and> active (stop_typing (\<lambda>c. False)
        (execute (\<lambda>c. False) (new_typer Windows (rng_of_list [0, 2]))
           [Call (TypeText [97, 98, 99]), Run 0])) = []
   \<and> injected (stop_typing (\<lambda>c. False)
        (execute (\<lambda>c. False) (new_typer Windows (rng_of_list []))
           [Call (TypeText [49, 50]), Run 0, Run 0, Run 0]))
      = [(Some 0, Send 49), (Some 0, Sleep 0.05)]"
  using cancellation_checked_each_pass
    [where alpha = "\<lambda>c. False" and p = Windows and ?g0.0 = "rng_of_list [0, 2]"
       and acts = "[Call (TypeText [97, 98, 99]), Run 0]"
       and i = 1 and src = "[49, 50, 51]" and stop = "\<lambda>n. 2 \<le> n" and n = 2
       and self = "\<lparr>typing_delay = (0.05, 0.2), error_rate = 0.005, mode = HUMAN_LIKE\<rparr>"
       and last_char = "Some 49" and g = "rng_of_list []" and ts = "[0, 0]"]
    cancellation_checked_each_pass
    [where alpha = "\<lambda>c. False" and p = Windows and ?g0.0 = "rng_of_list []"
       and acts = "[Call (TypeText [49, 50]), Run 0, Run 0, Run 0]"
       and i = 1 and src = "[49, 50, 51]" and stop = "\<lambda>n. 2 \<le> n" and n = 2
       and self = "\<lparr>typing_delay = (0.05, 0.2), error_rate = 0.005, mode = HUMAN_LIKE\<rparr>"
       and last_char = "Some 49" and g = "rng_of_list []" and ts = "[0, 0]"]
  by (simp add: engine_eval eval_defs rest_of_pass_def)

text \<open>
  The claim as it was stated has the flag checked before every injection inside a detour
  too, and fewer than \<open>N\<close> further injections when \<open>N\<close> source characters remain. Both fail
  for the text \<^verbatim>\<open>"a"\<close> when the flag is set after the first typo character: the cursor is
  still on the one remaining character, and the backspace and the \<^verbatim>\<open>a\<close> are injected all
  the same, with the flag set; the task then ends as finished, not as cancelled.
\<close>

theorem cancellation_inside_detour_counterexample:
  "simulate_typing (\<lambda>c. False)
      \<lparr>typing_delay = (0.05, 0.2), error_rate = 0.005, mode = HUMAN_LIKE\<rparr>
      (\<lambda>n. 1 \<le> n) [97] (rng_of_list [])
    = ([\<lparr>it_cursor = 0, it_branch = Typo, it_events =
          [Send 95, Sleep 0.05, Sleep 0.1, Send 8, Sleep 0.05, Send 97, Sleep 0.05]\<rparr>],
       Finished, rng_of_list [])
   \<and> sends (drop 1 [Send 95, Sleep 0.05, Sleep 0.1, Send 8, Sleep 0.05, Send 97, Sleep 0.05])
      = [8, 97]
   \<and> injected (execute (\<lambda>c. False) (new_typer Windows (rng_of_list []))
        [Call (TypeText [97]), Run 0, Run 0]) = [(Some 0, Send 95)]
   \<and> injected (execute (\<lambda>c. False) (new_typer Windows (rng_of_list []))
        [Call (TypeText [97]), Run 0, Run 0, Call StopTyping])
      = [(Some 0, Send 95), (Some 0, Sleep 0.05), (Some 0, Sleep 0.1), (Some 0, Send 8),
         (Some 0, Sleep 0.05), (Some 0, Send 97), (Some 0, Sleep 0.05)]"
  by (simp add: engine_eval eval_defs)



end
